theory Spec2Isabelle
  imports Main "HOL-Library.Word"
begin

section \<open>Data model\<close>

text \<open>
  Go's \<open>uint64\<close> is a 64-bit word: \<open>+\<close>, \<open>-\<close> and \<open>*\<close> wrap around, \<open>div\<close> is
  Go's unsigned division and \<open>\<le>\<close>, \<open><\<close> compare unsigned. \<open>uint\<close> and \<open>int\<close> are
  taken at their 64-bit size. An \<open>int64\<close> is kept as a \<open>u64\<close> bit pattern and read
  with \<open>sint\<close> where the code compares it as a signed number.
\<close>

type_synonym u64 = "64 word"
type_synonym byte = "8 word"

text \<open>\<open>chunk.go\<close>: \<open>type Chunk struct { Start, End uint64 }\<close>.\<close>

record Chunk =
  Start :: u64
  End :: u64

text \<open>\<open>type Info struct { Size uint64; Rangeable bool }\<close>.\<close>

record Info =
  Size :: u64
  Rangeable :: bool

text \<open>
  Error values. \<open>IOError\<close> stands for any error made outside the package (transport,
  file system, a reader or a writer); the others are the errors the package and the
  \<open>io\<close> package build themselves, and the run-time panics the code can reach: an
  integer division by zero, a \<open>nil\<close> dereference, and \<open>make\<close> with a capacity out
  of range (\<open>makeslice: cap out of range\<close>, \<open>makechan: size out of range\<close>).
\<close>

datatype error =
    IOError nat
  | ResponseStatusFail int
  | InvalidContentRange string
  | InvalidContentLength int u64 u64
  | EOF
  | ErrShortWrite
  | ErrInvalidWrite
  | PanicDivideByZero
  | PanicNilPointer
  | PanicMakeSliceCap
  | PanicMakeChanSize

section \<open>Default policy\<close>

text \<open>
  \<open>getDefaultConcurrency\<close>; \<open>runtime.NumCPU()\<close> is the parameter.
\<close>

definition getDefaultConcurrency :: "u64 \<Rightarrow> u64" where
  "getDefaultConcurrency numCPU =
     (let c = numCPU * 3;
          c = (if c > 20 then 20 else c);
          c = (if c \<le> 2 then 4 else c)
      in c)"

text \<open>
  \<open>getDefaultChunkSize\<close>. Go panics on an integer division by zero, so a zero
  \<open>concurrency\<close> is the error branch.
\<close>

definition getDefaultChunkSize :: "u64 \<Rightarrow> u64 \<Rightarrow> u64 \<Rightarrow> u64 \<Rightarrow> error + u64" where
  "getDefaultChunkSize totalSize min0 max0 concurrency =
     (if concurrency = 0 then Inl PanicDivideByZero
      else
        let cs = totalSize div concurrency;
            cs = (if cs \<ge> 102400000 then cs div 2 else cs);
            min1 = (if min0 = 0
                    then (if (2097152 :: u64) \<ge> totalSize then totalSize div 2 else 2097152)
                    else min0);
            cs = (if cs < min1 then min1 else cs);
            cs = (if max0 > 0 \<and> cs > max0 then max0 else cs);
            cs = (if cs \<ge> totalSize then totalSize div 2 else cs)
        in Inr cs)"

section \<open>Chunk planner\<close>

text \<open>
  The loop of \<open>Download.Init\<close>:
  \<^verbatim>\<open>for i := uint64(0); i < chunksLen; i++ { ... }\<close>
  with the list \<open>d.chunks\<close> as accumulator. The \<open>break\<close> is the branch without a
  recursive call.
\<close>

function Init_loop :: "u64 \<Rightarrow> u64 \<Rightarrow> u64 \<Rightarrow> u64 \<Rightarrow> Chunk list \<Rightarrow> Chunk list" where
  "Init_loop totalSize chunkSize chunksLen i chunks =
     (if i < chunksLen then
        (let start = (chunkSize * i) + i;
             end = start + chunkSize
         in if end \<ge> totalSize \<or> i = chunksLen - 1
            then chunks @ [\<lparr>Start = start, End = totalSize - 1\<rparr>]
            else Init_loop totalSize chunkSize chunksLen (i + 1)
                   (chunks @ [\<lparr>Start = start, End = end\<rparr>]))
      else chunks)"
  by pat_completeness auto
termination
proof (relation "measure (\<lambda>(totalSize, chunkSize, chunksLen, i, chunks). unat chunksLen - unat i)")
  show "wf (measure (\<lambda>(totalSize, chunkSize, chunksLen, i, chunks). unat chunksLen - unat i))"
    by simp
next
  fix totalSize chunkSize chunksLen i :: u64 and chunks :: "Chunk list" and x xa
  assume less: "i < chunksLen"
  have "unat chunksLen < 2 ^ 64"
    using unsigned_less [of chunksLen] by simp
  with less have "unat i + unat (1 :: u64) < 2 ^ LENGTH(64)"
    by (simp add: word_less_nat_alt)
  then have "unat (i + 1) = unat i + unat (1 :: u64)"
    by (simp only: unat_add_lem)
  with less
  show "((totalSize, chunkSize, chunksLen, i + 1, chunks @ [\<lparr>Start = x, End = xa\<rparr>]),
         (totalSize, chunkSize, chunksLen, i, chunks))
        \<in> measure (\<lambda>(totalSize, chunkSize, chunksLen, i, chunks). unat chunksLen - unat i)"
    by (simp add: word_less_nat_alt)
qed

declare Init_loop.simps [simp del]

text \<open>
  \<open>chunksLen := d.info.Size / d.ChunkSize\<close>, then
  \<open>d.chunks = make([]*Chunk, 0, chunksLen)\<close>, then the loop. \<open>make\<close> converts the
  capacity to \<open>int\<close> and panics when it is negative or larger than the run time
  accepts for a slice of pointers; \<open>maxcap\<close> is that largest capacity (at most
  \<open>2 ^ 45\<close> where the heap has 48 address bits). Running out of memory, which ends the
  program without a panic, is not modelled. The caller (\<open>Init\<close> below) has excluded a
  zero chunk size, where Go panics.
\<close>

definition Init_chunks :: "u64 \<Rightarrow> u64 \<Rightarrow> u64 \<Rightarrow> error + Chunk list" where
  "Init_chunks maxcap totalSize chunkSize =
     (if sint (totalSize div chunkSize) < 0 \<or> maxcap < totalSize div chunkSize
      then Inl PanicMakeSliceCap
      else Inr (Init_loop totalSize chunkSize (totalSize div chunkSize) 0 []))"





text \<open>
  Exact tiling of the byte span \<open>[0, totalSize)\<close> by an ordered chunk list: the first
  chunk starts at byte 0, every chunk has \<open>Start \<le> End\<close>, each next chunk starts at
  the byte after the previous end, and the last chunk ends at byte \<open>totalSize - 1\<close>.
  Offsets are read as natural numbers.
\<close>

fun tiles_from :: "nat \<Rightarrow> nat \<Rightarrow> Chunk list \<Rightarrow> bool" where
  "tiles_from lo hi [] = (lo = hi)"
| "tiles_from lo hi (c # cs) =
     (unat (Start c) = lo \<and> unat (Start c) \<le> unat (End c) \<and>
      tiles_from (Suc (unat (End c))) hi cs)"

definition tiles :: "u64 \<Rightarrow> Chunk list \<Rightarrow> bool" where
  "tiles totalSize cs = tiles_from 0 (unat totalSize) cs"

section \<open>Strings\<close>

text \<open>
  The functions of Go's standard library on strings that the package relies on.
  \<open>strings.Split(s, sep)\<close> is called with the one-byte separator \<open>"/"\<close> only: the
  pieces of \<open>s\<close> between the separators, one more than there are separators.
\<close>

fun Split :: "string \<Rightarrow> char \<Rightarrow> string list" where
  "Split [] sep = [[]]"
| "Split (c # cs) sep =
     (if c = sep then [] # Split cs sep
      else (case Split cs sep of [] \<Rightarrow> [[c]] | p # ps \<Rightarrow> (c # p) # ps))"

text \<open>\<open>strings.Contains(s, substr)\<close>: \<open>substr\<close> occurs in \<open>s\<close> as a contiguous run.\<close>

fun HasPrefix :: "string \<Rightarrow> string \<Rightarrow> bool" where
  "HasPrefix s [] = True"
| "HasPrefix [] (p # ps) = False"
| "HasPrefix (c # cs) (p # ps) = (c = p \<and> HasPrefix cs ps)"

fun Contains :: "string \<Rightarrow> string \<Rightarrow> bool" where
  "Contains [] substr = (substr = [])"
| "Contains (c # cs) substr = (HasPrefix (c # cs) substr \<or> Contains cs substr)"

text \<open>
  \<open>strconv.ParseUint(s, 10, 64)\<close>: a non-empty run of the digits \<open>0\<close> to \<open>9\<close>, no
  sign, no underscore, with a value below \<open>2 ^ 64\<close>; anything else is an error
  (\<open>None\<close>).
\<close>

definition digit_value :: "char \<Rightarrow> int option" where
  "digit_value c =
     (if 48 \<le> (of_char c :: int) \<and> (of_char c :: int) \<le> 57
      then Some (of_char c - 48) else None)"

fun parse_digits :: "int \<Rightarrow> string \<Rightarrow> int option" where
  "parse_digits acc [] = Some acc"
| "parse_digits acc (c # cs) =
     (case digit_value c of None \<Rightarrow> None | Some v \<Rightarrow> parse_digits (acc * 10 + v) cs)"

definition ParseUint :: "string \<Rightarrow> u64 option" where
  "ParseUint s =
     (if s = [] then None
      else (case parse_digits 0 s of
              None \<Rightarrow> None
            | Some v \<Rightarrow> if v < 2 ^ 64 then Some (word_of_int v) else None))"

text \<open>
  \<open>strconv.FormatUint(n, 10)\<close>, the decimal numeral of \<open>n\<close>: what a server writes
  as the total of a \<open>Content-Range\<close> header and what \<open>%d\<close> prints.
\<close>

function FormatUint :: "nat \<Rightarrow> string" where
  "FormatUint n =
     (if n < 10 then [char_of (48 + n)]
      else FormatUint (n div 10) @ [char_of (48 + n mod 10)])"
  by pat_completeness auto
termination
  by (relation "measure id") auto

declare FormatUint.simps [simp del]

section \<open>Filename from a header value\<close>

text \<open>
  \<open>getNameFromHeader\<close>. \<open>mime.ParseMediaType\<close> belongs to Go's standard library and
  is a parameter: it returns an error or the media type with its parameter map. A key
  missing from a Go map reads as the empty string.
\<close>

type_synonym media_parser = "string \<Rightarrow> error + (string \<times> (string \<rightharpoonup> string))"

definition param :: "(string \<rightharpoonup> string) \<Rightarrow> string \<Rightarrow> string" where
  "param params key = (case params key of None \<Rightarrow> [] | Some v \<Rightarrow> v)"

definition getNameFromHeader :: "media_parser \<Rightarrow> string \<Rightarrow> string" where
  "getNameFromHeader ParseMediaType val =
     (case ParseMediaType val of
        Inl err \<Rightarrow> []
      | Inr (mediatype, params) \<Rightarrow>
          if Contains (param params ''filename'') ''..'' \<or>
             Contains (param params ''filename'') ''/'' \<or>
             Contains (param params ''filename'') [CHR 0x5C]
          then []
          else param params ''filename'')"

section \<open>The download session\<close>

text \<open>
  The fields of \<open>Download\<close> that the planner, the probe, the workers and the byte
  counter read or write. The HTTP client, the URL, the headers, the destination path
  and the context are the environment below. \<open>info\<close> is a pointer: \<open>None\<close> is
  \<open>nil\<close>. The counter field \<open>size\<close> is named \<open>size_d\<close> here.
\<close>

record Download =
  Concurrency :: u64
  ChunkSize :: u64
  MinChunkSize :: u64
  MaxChunkSize :: u64
  unsafeName :: string
  size_d :: u64
  info :: "Info option"
  chunks :: "Chunk list"

text \<open>
  \<open>Download.Size\<close> and \<open>Download.Write\<close>. The atomic add is one step; \<open>len(b)\<close>
  converted to \<open>uint64\<close> is added with wrap-around. \<open>Write\<close> returns the new
  session, \<open>n\<close> and the error, which is always \<open>nil\<close>.
\<close>

definition Download_Size :: "Download \<Rightarrow> u64" where
  "Download_Size d = size_d d"

definition Download_Write :: "Download \<Rightarrow> byte list \<Rightarrow> Download \<times> int \<times> error option" where
  "Download_Write d b = (d\<lparr>size_d := size_d d + of_nat (length b)\<rparr>, int (length b), None)"

text \<open>A run of counting writes, one after the other.\<close>

fun Download_Writes :: "Download \<Rightarrow> byte list list \<Rightarrow> Download" where
  "Download_Writes d [] = d"
| "Download_Writes d (b # bs) = Download_Writes (fst (Download_Write d b)) bs"

section \<open>Writers and the Offset Writer\<close>

text \<open>
  An \<open>io.Writer\<close> and an \<open>io.WriterAt\<close> are interfaces: here the method is a
  function on the state \<open>'w\<close> of the sink that returns the new state, the count \<open>n\<close>
  and the error (\<open>None\<close> is \<open>nil\<close>). The offset of \<open>WriteAt\<close> is an \<open>int64\<close>.
\<close>

type_synonym 'w Writer = "'w \<Rightarrow> byte list \<Rightarrow> 'w \<times> int \<times> error option"
type_synonym 'w WriterAt = "'w \<Rightarrow> byte list \<Rightarrow> u64 \<Rightarrow> 'w \<times> int \<times> error option"

text \<open>
  \<open>chunk.go\<close>: \<open>type OffsetWriter struct { io.WriterAt; offset int64 }\<close>; the field
  \<open>sink\<close> is the state of the embedded \<open>io.WriterAt\<close>.
  \<open>dst.offset += int64(n)\<close> wraps around like every Go addition.
\<close>

record 'w OffsetWriter =
  sink :: 'w
  offset :: u64

definition OffsetWriter_Write :: "'w WriterAt \<Rightarrow> 'w OffsetWriter \<Rightarrow> byte list \<Rightarrow>
    'w OffsetWriter \<times> int \<times> error option" where
  "OffsetWriter_Write WriteAt dst b =
     (case WriteAt (sink dst) b (offset dst) of
        (w, n, err) \<Rightarrow> (\<lparr>sink = w, offset = offset dst + word_of_int n\<rparr>, n, err))"

text \<open>
  The sink after positional writes of the pieces \<open>qs\<close>, one behind the other from
  offset \<open>off\<close> on (empty pieces are not written): what a sequence of full writes
  through an Offset Writer amounts to.
\<close>

fun WriteAt_all :: "'w WriterAt \<Rightarrow> 'w \<Rightarrow> u64 \<Rightarrow> byte list list \<Rightarrow> 'w" where
  "WriteAt_all WriteAt w off [] = w"
| "WriteAt_all WriteAt w off (q # qs) =
     (if q = [] then WriteAt_all WriteAt w off qs
      else WriteAt_all WriteAt (fst (WriteAt w q off)) (off + of_nat (length q)) qs)"

section \<open>Readers and copying\<close>

text \<open>
  A response body is an \<open>io.Reader\<close>. \<open>reads\<close> lists what the successive calls of
  \<open>Read\<close> deliver, and \<open>fin\<close> is how the stream ends after them: \<open>None\<close> is
  \<open>io.EOF\<close>, \<open>Some e\<close> a read error.
\<close>

record Reader =
  reads :: "byte list list"
  fin :: "error option"

text \<open>
  \<open>io.LimitReader(r, n)\<close>: \<open>Read\<close> returns \<open>EOF\<close> once \<open>N \<le> 0\<close>; before that it
  cuts the buffer to \<open>N\<close> bytes, reads, and lowers \<open>N\<close> by the bytes read.
\<close>

fun LimitReader :: "byte list list \<Rightarrow> error option \<Rightarrow> int \<Rightarrow> byte list list \<times> error option" where
  "LimitReader [] fin0 n = ([], if n \<le> 0 then None else fin0)"
| "LimitReader (p # ps) fin0 n =
     (if n \<le> 0 then ([], None)
      else (case LimitReader ps fin0 (n - int (length (take (nat n) p))) of
              (qs, e) \<Rightarrow> (take (nat n) p # qs, e)))"

text \<open>
  The loop of \<open>io.Copy(dst, io.TeeReader(src, d))\<close>. Each \<open>Read\<close> of the tee reader
  that delivers bytes first hands them to \<open>d.Write\<close>, the session's counter, whose
  error is always \<open>nil\<close>. The copy then writes them to \<open>dst\<close>: an impossible count
  is \<open>ErrInvalidWrite\<close>, a write error stops the copy, a short write is
  \<open>ErrShortWrite\<close>. At the end of the stream \<open>EOF\<close> is success and any other
  read error is returned. The result is the session, the sink, \<open>written\<close> and the
  error.
\<close>

fun io_Copy :: "'w Writer \<Rightarrow> byte list list \<Rightarrow> error option \<Rightarrow> Download \<Rightarrow> 'w \<Rightarrow> int \<Rightarrow>
    Download \<times> 'w \<times> int \<times> error option" where
  "io_Copy Write [] fin0 d w written = (d, w, written, fin0)"
| "io_Copy Write (p # ps) fin0 d w written =
     (if p = [] then io_Copy Write ps fin0 d w written
      else
        (case Write w p of
           (w1, nw, ew) \<Rightarrow>
             (if nw < 0 \<or> int (length p) < nw
              then (fst (Download_Write d p), w1, written,
                    (if ew = None then Some ErrInvalidWrite else ew))
              else if ew \<noteq> None then (fst (Download_Write d p), w1, written + nw, ew)
              else if int (length p) \<noteq> nw
                then (fst (Download_Write d p), w1, written + nw, Some ErrShortWrite)
              else io_Copy Write ps fin0 (fst (Download_Write d p)) w1 (written + nw))))"

text \<open>
  \<open>io.CopyN(dst, src, n)\<close>: copy from the limited reader; success exactly when
  \<open>written = n\<close>, \<open>EOF\<close> when the source ended early without an error.
\<close>

definition io_CopyN :: "'w Writer \<Rightarrow> Reader \<Rightarrow> int \<Rightarrow> Download \<Rightarrow> 'w \<Rightarrow>
    Download \<times> 'w \<times> int \<times> error option" where
  "io_CopyN Write src n d w =
     (case LimitReader (reads src) (fin src) n of
        (ps, e) \<Rightarrow>
          (case io_Copy Write ps e d w 0 of
             (d1, w1, written, err) \<Rightarrow>
               if written = n then (d1, w1, n, None)
               else if written < n \<and> err = None then (d1, w1, written, Some EOF)
               else (d1, w1, written, err)))"

section \<open>Environment\<close>

text \<open>
  What the package gets from outside. \<open>Response\<close> holds the fields of
  \<open>http.Response\<close> the code reads: the status, the two headers as
  \<open>Header.Get\<close> returns them (empty when absent), \<open>ContentLength\<close> (an \<open>int64\<close>,
  \<open>-1\<close> when unknown) and the body.
\<close>

record Response =
  StatusCode :: int
  content_disposition :: string
  content_range :: string
  ContentLength :: int
  Body :: Reader

text \<open>
  \<open>NewRequest_err\<close>: the error of \<open>NewRequest\<close>, if the URL is rejected.
  \<open>Client_Do\<close>: the answer of \<open>d.Client.Do\<close>; the argument \<open>None\<close> is the probe
  request (\<open>Range: bytes=0-0\<close>), \<open>Some c\<close> the request for chunk \<open>c\<close>
  (\<open>Range: bytes=Start-End\<close>). \<open>NumCPU\<close>: \<open>runtime.NumCPU()\<close>.
  \<open>ctx_Err\<close>: \<open>d.ctx.Err()\<close> when the context is done, else \<open>None\<close>.
  \<open>errs_first\<close>: the last \<open>select\<close> of \<open>Start\<close> takes the value on \<open>errs\<close>
  although the context is done.
  \<open>makeslice_max\<close>, \<open>makechan_max\<close>: the largest capacity with which \<open>make\<close>
  returns a slice of pointers and a channel of \<open>int\<close>.
\<close>

record Env =
  NewRequest_err :: "error option"
  Client_Do :: "Chunk option \<Rightarrow> error + Response"
  NumCPU :: u64
  ctx_Err :: "error option"
  errs_first :: bool
  makeslice_max :: u64
  makechan_max :: u64

text \<open>
  The destination file with state \<open>'f\<close>: \<open>os.Create\<close> on the destination path,
  and \<open>Truncate\<close>, \<open>Write\<close> and \<open>WriteAt\<close> of \<open>os.File\<close>. The error of
  \<open>Truncate\<close> is dropped by the caller, so only the new state is returned.
\<close>

record 'f OS =
  os_Create :: "'f \<Rightarrow> error + 'f"
  File_Truncate :: "'f \<Rightarrow> int \<Rightarrow> 'f"
  File_Write :: "'f Writer"
  File_WriteAt :: "'f WriterAt"

section \<open>Probe\<close>

text \<open>
  \<open>Download.GetInfoOrDownload\<close>. The result is the \<open>Info\<close> or the error, with the
  session and the file as the call leaves them.
\<close>

definition GetInfoOrDownload :: "'f OS \<Rightarrow> Env \<Rightarrow> Download \<Rightarrow> 'f \<Rightarrow>
    (error + Info) \<times> Download \<times> 'f" where
  "GetInfoOrDownload os env d f =
     (case NewRequest_err env of
        Some err \<Rightarrow> (Inl err, d, f)
      | None \<Rightarrow>
     (case Client_Do env None of
        Inl err \<Rightarrow> (Inl err, d, f)
      | Inr res \<Rightarrow>
     if StatusCode res \<ge> 300 then (Inl (ResponseStatusFail (StatusCode res)), d, f)
     else
     (case os_Create os f of
        Inl err \<Rightarrow> (Inl err, d\<lparr>unsafeName := content_disposition res\<rparr>, f)
      | Inr dest \<Rightarrow>
     (case io_Copy (File_Write os) (reads (Body res)) (fin (Body res))
             (d\<lparr>unsafeName := content_disposition res\<rparr>) dest 0 of
        (d1, dest1, written, Some err) \<Rightarrow> (Inl err, d1, dest1)
      | (d1, dest1, written, None) \<Rightarrow>
     if content_range res \<noteq> [] \<and> ContentLength res = 1 then
       (if length (Split (content_range res) CHR ''/'') = 2 then
          (case ParseUint (Split (content_range res) CHR ''/'' ! 1) of
             Some n \<Rightarrow> (Inr \<lparr>Size = n, Rangeable = True\<rparr>, d1, dest1)
           | None \<Rightarrow> (Inl (InvalidContentRange (content_range res)), d1, dest1))
        else (Inl (InvalidContentRange (content_range res)), d1, dest1))
     else (Inr \<lparr>Size = 0, Rangeable = False\<rparr>, d1, dest1)))))"

section \<open>Init\<close>


section \<open>Fetch worker\<close>

text \<open>
  \<open>Download.DownloadChunk\<close> with \<open>dest\<close> an \<open>io.Writer\<close> of state \<open>'w\<close>.
  \<open>int64(c.End - c.Start + 1)\<close> is the \<open>uint64\<close> result read as a signed number.
\<close>

definition DownloadChunk :: "'w Writer \<Rightarrow> Env \<Rightarrow> Download \<Rightarrow> Chunk \<Rightarrow> 'w \<Rightarrow>
    error option \<times> Download \<times> 'w" where
  "DownloadChunk Write env d c dest =
     (case NewRequest_err env of
        Some err \<Rightarrow> (Some err, d, dest)
      | None \<Rightarrow>
     (case Client_Do env (Some c) of
        Inl err \<Rightarrow> (Some err, d, dest)
      | Inr res \<Rightarrow>
     if ContentLength res \<noteq> sint (End c - Start c + 1)
     then (Some (InvalidContentLength (ContentLength res) (Start c) (End c)), d, dest)
     else (case io_CopyN Write (Body res) (ContentLength res) d dest of
             (d1, dest1, written, err) \<Rightarrow> (err, d1, dest1))))"

section \<open>Start\<close>




section \<open>An in-memory file\<close>

text \<open>
  A destination file held in memory, to run the model on concrete inputs: creation
  empties it, truncation cuts it or pads it with zero bytes (and fails, leaving the
  file as it is, for a negative size), \<open>Write\<close> appends, \<open>WriteAt\<close> overwrites at
  the offset, padding a gap with zero bytes, and rejects a negative offset.
\<close>

definition mem_Truncate :: "byte list \<Rightarrow> int \<Rightarrow> byte list" where
  "mem_Truncate f n =
     (if n < 0 then f else take (nat n) f @ replicate (nat n - length f) 0)"

definition mem_WriteAt :: "byte list WriterAt" where
  "mem_WriteAt f b off =
     (if sint off < 0 then (f, 0, Some (IOError 22))
      else (take (nat (sint off)) f @ replicate (nat (sint off) - length f) 0 @ b @
            drop (nat (sint off) + length b) f, int (length b), None))"


definition mem_OS :: "byte list OS" where
  "mem_OS = \<lparr>os_Create = (\<lambda>f. Inr []),
            File_Truncate = mem_Truncate,
            File_Write = (\<lambda>f b. (f @ b, int (length b), None)),
            File_WriteAt = mem_WriteAt\<rparr>"

section \<open>Sample inputs\<close>

text \<open>The zero value \<open>Download{}\<close>.\<close>

definition Download_zero :: Download where
  "Download_zero = \<lparr>Concurrency = 0, ChunkSize = 0, MinChunkSize = 0, MaxChunkSize = 0,
     unsafeName = [], size_d = 0, info = None, chunks = []\<rparr>"

text \<open>
  A server that holds ten bytes and honours range requests: the probe is answered
  with one byte and \<open>Content-Range: bytes 0-0/10\<close>, a chunk request with the bytes
  of the range. The machine gives \<open>make\<close> up to \<open>2 ^ 32\<close> elements.
\<close>

definition sample_content :: "byte list" where
  "sample_content = [1, 2, 3, 4, 5, 6, 7, 8, 9, 10]"

definition sample_server :: "Chunk option \<Rightarrow> error + Response" where
  "sample_server r =
     (case r of
        None \<Rightarrow>
          Inr \<lparr>StatusCode = 206, content_disposition = [], content_range = ''bytes 0-0/10'',
               ContentLength = 1, Body = \<lparr>reads = [take 1 sample_content], fin = None\<rparr>\<rparr>
      | Some c \<Rightarrow>
          Inr \<lparr>StatusCode = 206, content_disposition = [], content_range = [],
               ContentLength =
                 int (length (take (unat (End c) + 1 - unat (Start c))
                                (drop (unat (Start c)) sample_content))),
               Body = \<lparr>reads = [take (unat (End c) + 1 - unat (Start c))
                                    (drop (unat (Start c)) sample_content)],
                        fin = None\<rparr>\<rparr>)"

definition sample_env :: Env where
  "sample_env = \<lparr>NewRequest_err = None, Client_Do = sample_server, NumCPU = 8,
                 ctx_Err = None, errs_first = False,
                 makeslice_max = 0x100000000, makechan_max = 0x100000000\<rparr>"

text \<open>
  A server that answers every request with a body of unknown length, for which Go
  sets \<open>ContentLength\<close> to \<open>-1\<close>.
\<close>

definition chunked_env :: Env where
  "chunked_env = \<lparr>NewRequest_err = None,
      Client_Do = (\<lambda>r. Inr \<lparr>StatusCode = 200, content_disposition = [], content_range = [],
                              ContentLength = - 1,
                              Body = \<lparr>reads = [[1, 2, 3]], fin = None\<rparr>\<rparr>),
      NumCPU = 8, ctx_Err = None, errs_first = False,
      makeslice_max = 0x100000000, makechan_max = 0x100000000\<rparr>"

text \<open>
  Three probe answers: a server that announces a total of \<open>2 ^ 63\<close> bytes; one
  whose \<open>Content-Range\<close> value is not of the form \<open>bytes X-Y/TOTAL\<close>; and one that
  honours the range with a one-byte body but sends it without a declared length.
\<close>

definition probe_env :: "string \<Rightarrow> int \<Rightarrow> Env" where
  "probe_env cr len =
     \<lparr>NewRequest_err = None,
      Client_Do = (\<lambda>r. Inr \<lparr>StatusCode = 206, content_disposition = [], content_range = cr,
                              ContentLength = len,
                              Body = \<lparr>reads = [[1]], fin = None\<rparr>\<rparr>),
      NumCPU = 8, ctx_Err = None, errs_first = False,
      makeslice_max = 0x100000000, makechan_max = 0x100000000\<rparr>"


definition garbage_env :: Env where
  "garbage_env = probe_env ''garbage/7'' 1"

definition undeclared_env :: Env where
  "undeclared_env = probe_env ''bytes 0-0/10'' (- 1)"

text \<open>
  Two header values and what \<open>mime.ParseMediaType\<close> returns for them: a value
  with a slash in a parameter other than the file name, and a value whose file name
  climbs out of the directory. The table has no other entry; any other value is
  answered with an error.
\<close>

definition sample_header :: string where
  "sample_header = ''attachment; filename=a.txt; dir=\"/tmp\"''"

definition traversal_header :: string where
  "traversal_header = ''attachment; filename=\"../a.txt\"''"

definition ParseMediaType_sample :: media_parser where
  "ParseMediaType_sample v =
     (if v = sample_header
      then Inr (''attachment'', [''filename'' \<mapsto> ''a.txt'', ''dir'' \<mapsto> ''/tmp''])
      else if v = traversal_header
      then Inr (''attachment'', [''filename'' \<mapsto> ''../a.txt''])
      else Inl (IOError 0))"

section \<open>Word arithmetic\<close>





lemma half_less: "0 < (t::u64) \<Longrightarrow> t div 2 < t"
proof -
  assume "0 < t"
  then have "0 < unat t" by (simp add: word_less_nat_alt)
  then have "unat t div 2 < unat t" by simp
  then show ?thesis by (simp add: word_less_nat_alt unat_div)
qed

lemma half_le: "(t::u64) div 2 \<le> t"
  by (simp add: word_le_nat_alt unat_div)

lemma unat_add_of_nat:
  assumes "unat (x::u64) + n < 2 ^ 64"
  shows "unat (x + of_nat n) = unat x + n"
proof -
  from assms have "n < 2 ^ 64" by simp
  then have un: "unat (of_nat n :: u64) = n" by (simp add: unat_of_nat)
  with assms have "unat x + unat (of_nat n :: u64) < 2 ^ LENGTH(64)" by simp
  then have "unat (x + of_nat n) = unat x + unat (of_nat n :: u64)"
    by (simp only: unat_add_lem)
  with un show ?thesis by simp
qed

lemma sint_u64: "sint (w :: u64) = (uint w + 2 ^ 63) mod 2 ^ 64 - 2 ^ 63"
  using int_word_sint [of "uint w", where ?'a = 64] by simp

lemma uint_unat_u64: "uint (w :: u64) = int (unat w)"
  by simp

lemma sint_small: "unat (w :: u64) < 2 ^ 63 \<Longrightarrow> sint w = int (unat w)"
proof -
  assume a: "unat w < 2 ^ 63"
  then have "int (unat w) < 2 ^ 63" by (metis of_nat_less_numeral_power_cancel_iff)
  then have "(int (unat w) + 2 ^ 63) mod 2 ^ 64 = int (unat w) + 2 ^ 63"
    by (intro mod_pos_pos_trivial) simp_all
  then show ?thesis by (simp only: sint_u64 uint_unat_u64)
qed

lemma chunk_span:
  assumes "Start c \<le> End c" and "unat (End c) - unat (Start c) + 1 < 2 ^ 63"
  shows "sint (End c - Start c + 1) = int (unat (End c) - unat (Start c) + 1)"
proof -
  from assms(1) have s: "unat (End c - Start c) = unat (End c) - unat (Start c)"
    by (rule unat_sub)
  with assms(2) have "unat (End c - Start c) + unat (1 :: u64) < 2 ^ LENGTH(64)" by simp
  then have "unat (End c - Start c + 1) = unat (End c - Start c) + unat (1 :: u64)"
    by (simp only: unat_add_lem)
  with s have u: "unat (End c - Start c + 1) = unat (End c) - unat (Start c) + 1" by simp
  with assms(2) have "unat (End c - Start c + 1) < 2 ^ 63" by simp
  then have "sint (End c - Start c + 1) = int (unat (End c - Start c + 1))" by (rule sint_small)
  with u show ?thesis by simp
qed


section \<open>The planner\<close>








text \<open>
  C1. The claim that the planned chunks exactly tile \<open>[0, totalSize)\<close> for every
  total size and chunk size above zero fails on the code. For \<open>totalSize = 2\<close> and
  \<open>chunkSize = 1\<close> the loop emits a second chunk that starts at byte 2, past the
  end of the resource, with \<open>End = 1 < Start\<close>; for \<open>totalSize = 1\<close> and
  \<open>chunkSize = 2\<close> it plans no chunk at all.
\<close>

theorem Init_chunks_not_tiling:
  "Init_chunks 0x100000000 2 1 =
     Inr [\<lparr>Start = 0, End = 1\<rparr>, \<lparr>Start = 2, End = 1\<rparr>] \<and>
   \<not> tiles 2 [\<lparr>Start = 0, End = 1\<rparr>, \<lparr>Start = 2, End = 1\<rparr>] \<and>
   Init_chunks 0x100000000 1 2 = Inr [] \<and>
   \<not> tiles 1 []"
  by code_simp

section \<open>The default policy\<close>

text \<open>
  C5. The claim that the default concurrency lies in \<open>[4, 20]\<close> for every reported
  parallelism of at least one fails on the code: with one CPU the value is 3, since the
  boost to 4 is taken only for values of at most 2.
\<close>

theorem getDefaultConcurrency_one_cpu:
  "getDefaultConcurrency 1 = 3 \<and> \<not> (4 :: u64) \<le> getDefaultConcurrency 1"
  by code_simp

lemma getDefaultConcurrency_range:
  "3 \<le> getDefaultConcurrency numCPU \<and> getDefaultConcurrency numCPU \<le> 20"
  by (auto simp: getDefaultConcurrency_def Let_def word_le_nat_alt word_less_nat_alt)

text \<open>
  C6, as stated: the default chunk size is at most \<open>totalSize div 2\<close>. It fails for
  a 3,000,000-byte resource with concurrency 4 and no bounds given: the 2 MiB default
  minimum is returned, above half the total size.
\<close>

theorem getDefaultChunkSize_above_half:
  "getDefaultChunkSize 3000000 0 0 4 = Inr 2097152 \<and>
   \<not> (2097152 :: u64) \<le> 3000000 div 2"
  by code_simp

text \<open>
  C6, amended. For every total size above zero, every \<open>min\<close> and \<open>max\<close> bound and
  every concurrency of at least one, the default chunk size is returned (no panic), is
  strictly below the total size, and is at most \<open>max\<close> whenever \<open>max\<close> is above zero.
\<close>

theorem getDefaultChunkSize_below_total:
  assumes "0 < totalSize" and "1 \<le> concurrency"
  shows "\<exists>cs. getDefaultChunkSize totalSize min0 max0 concurrency = Inr cs \<and>
              cs < totalSize \<and> (0 < max0 \<longrightarrow> cs \<le> max0)"
proof -
  from assms(2) have c0: "concurrency \<noteq> 0" by auto
  define cs1 where
    "cs1 = (let cs = totalSize div concurrency in if cs \<ge> 102400000 then cs div 2 else cs)"
  define min1 where
    "min1 = (if min0 = 0
             then (if (2097152 :: u64) \<ge> totalSize then totalSize div 2 else 2097152)
             else min0)"
  define cs2 where "cs2 = (if cs1 < min1 then min1 else cs1)"
  define cs3 where "cs3 = (if max0 > 0 \<and> cs2 > max0 then max0 else cs2)"
  define cs4 where "cs4 = (if cs3 \<ge> totalSize then totalSize div 2 else cs3)"
  have res: "getDefaultChunkSize totalSize min0 max0 concurrency = Inr cs4"
    unfolding getDefaultChunkSize_def Let_def cs4_def cs3_def cs2_def min1_def cs1_def
    using c0 by (simp only: if_False)
  have lt: "cs4 < totalSize"
    using half_less [OF assms(1)] by (simp add: cs4_def not_le)
  have le3: "0 < max0 \<Longrightarrow> cs3 \<le> max0"
    by (simp add: cs3_def not_less)
  have "cs4 \<le> cs3"
    using half_le [of totalSize] by (auto simp: cs4_def)
  with le3 have "0 < max0 \<longrightarrow> cs4 \<le> max0" by auto
  with res lt show ?thesis by simp
qed

theorem getDefaultChunkSize_below_total_witness:
  "getDefaultChunkSize 3000000 0 1000000 4 = Inr 1000000 \<and> (1000000 :: u64) < 3000000"
proof -
  have h1: "(0 :: u64) < 3000000" by code_simp
  have h2: "(1 :: u64) \<le> 4" by code_simp
  have e: "getDefaultChunkSize 3000000 0 1000000 4 = Inr 1000000" by code_simp
  from getDefaultChunkSize_below_total [OF h1 h2, of 0 1000000] e
  show ?thesis by simp
qed

section \<open>Filename from a header value\<close>

lemma HasPrefix_iff: "HasPrefix s p \<longleftrightarrow> (\<exists>ys. s = p @ ys)"
  by (induction s p rule: HasPrefix.induct) auto

lemma Contains_iff: "Contains s sub \<longleftrightarrow> (\<exists>xs ys. s = xs @ sub @ ys)"
proof (induction s)
  case Nil
  then show ?case by simp
next
  case (Cons c cs)
  show ?case
  proof
    assume "Contains (c # cs) sub"
    then consider "HasPrefix (c # cs) sub" | "Contains cs sub" by auto
    then show "\<exists>xs ys. c # cs = xs @ sub @ ys"
    proof cases
      case 1
      then obtain ys where "c # cs = sub @ ys" by (auto simp: HasPrefix_iff)
      then have "c # cs = [] @ sub @ ys" by simp
      then show ?thesis by blast
    next
      case 2
      with Cons.IH obtain xs ys where "cs = xs @ sub @ ys" by blast
      then have "c # cs = (c # xs) @ sub @ ys" by simp
      then show ?thesis by blast
    qed
  next
    assume "\<exists>xs ys. c # cs = xs @ sub @ ys"
    then obtain xs ys where eq: "c # cs = xs @ sub @ ys" by blast
    show "Contains (c # cs) sub"
    proof (cases xs)
      case Nil
      with eq have "HasPrefix (c # cs) sub" by (auto simp: HasPrefix_iff)
      then show ?thesis by simp
    next
      case (Cons x xs')
      with eq have "cs = xs' @ sub @ ys" by simp
      with Cons.IH have "Contains cs sub" by blast
      then show ?thesis by simp
    qed
  qed
qed

text \<open>
  C7, as stated: every header value that contains a slash anywhere is answered with
  the empty string. It fails for a value whose slash sits in another parameter: the
  code looks at the \<open>filename\<close> parameter only, and returns it.
\<close>

theorem getNameFromHeader_slash_elsewhere:
  "Contains sample_header ''/'' \<and>
   getNameFromHeader ParseMediaType_sample sample_header = ''a.txt''"
  by (simp add: sample_header_def getNameFromHeader_def ParseMediaType_sample_def param_def)

text \<open>
  C7, amended. For every header value that fails to parse, and for every value whose
  parsed \<open>filename\<close> parameter contains \<open>..\<close>, a slash or a backslash, the resolver
  returns the empty string.
\<close>

theorem getNameFromHeader_rejects:
  assumes "(\<exists>err. ParseMediaType val = Inl err) \<or>
           (\<exists>mediatype params xs ys. ParseMediaType val = Inr (mediatype, params) \<and>
              (param params ''filename'' = xs @ ''..'' @ ys \<or>
               param params ''filename'' = xs @ ''/'' @ ys \<or>
               param params ''filename'' = xs @ [CHR 0x5C] @ ys))"
  shows "getNameFromHeader ParseMediaType val = []"
  using assms
  by (auto simp: getNameFromHeader_def Contains_iff simp del: Contains.simps append.simps
           split: sum.splits prod.splits)

theorem getNameFromHeader_rejects_witness:
  "getNameFromHeader ParseMediaType_sample traversal_header = []"
proof -
  have "ParseMediaType_sample traversal_header =
          Inr (''attachment'', [''filename'' \<mapsto> ''../a.txt'']) \<and>
        param [''filename'' \<mapsto> ''../a.txt''] ''filename'' = [] @ ''..'' @ ''/a.txt''"
    by (simp add: ParseMediaType_sample_def traversal_header_def sample_header_def param_def)
  then have "(\<exists>err. ParseMediaType_sample traversal_header = Inl err) \<or>
           (\<exists>mediatype params xs ys.
              ParseMediaType_sample traversal_header = Inr (mediatype, params) \<and>
              (param params ''filename'' = xs @ ''..'' @ ys \<or>
               param params ''filename'' = xs @ ''/'' @ ys \<or>
               param params ''filename'' = xs @ [CHR 0x5C] @ ys))"
    by blast
  then show ?thesis by (rule getNameFromHeader_rejects)
qed

section \<open>The Offset Writer\<close>




text \<open>
  On the in-memory file, with offsets that stay within the non-negative \<open>int64\<close>
  range, two writes through an Offset Writer leave the two buffers one behind the
  other, starting at the writer's first offset.
\<close>

lemma mem_WriteAt_nonneg:
  assumes "unat off < 2 ^ 63"
  shows "mem_WriteAt f b off =
    (take (unat off) f @ replicate (unat off - length f) 0 @ b @ drop (unat off + length b) f,
     int (length b), None)"
  using sint_small [OF assms] by (simp add: mem_WriteAt_def)

lemma overwrite_twice:
  assumes g_def: "g = take k f @ replicate (k - length f) z @ b1 @ drop (k + length b1) f"
  shows "take (k + length b1) g @ replicate (k + length b1 - length g) z @ b2 @
           drop (k + length b1 + length b2) g =
         take k f @ replicate (k - length f) z @ (b1 @ b2) @ drop (k + length (b1 @ b2)) f"
proof -
  have pre: "length (take k f @ replicate (k - length f) z) = k" by auto
  have lg: "k + length b1 \<le> length g" by (simp add: g_def)
  have t: "take (k + length b1) g = take k f @ replicate (k - length f) z @ b1"
    using pre by (simp add: g_def)
  have "drop (k + length b1 + length b2) g = drop (length b2) (drop (k + length b1) g)"
    by (simp add: add.commute)
  also have "drop (k + length b1) g = drop (k + length b1) f"
    using pre by (simp add: g_def)
  finally have d: "drop (k + length b1 + length b2) g = drop (k + length b1 + length b2) f"
    by (simp add: add.commute)
  from lg have r: "replicate (k + length b1 - length g) z = []" by simp
  show ?thesis by (simp only: t d r) (simp add: add.assoc)
qed

lemma OffsetWriter_mem_consecutive:
  assumes "unat off + length b1 < 2 ^ 63"
  shows "fst (OffsetWriter_Write mem_WriteAt
               (fst (OffsetWriter_Write mem_WriteAt \<lparr>sink = f, offset = off\<rparr> b1)) b2) =
         \<lparr>sink = take (unat off) f @ replicate (unat off - length f) 0 @ (b1 @ b2) @
                  drop (unat off + length (b1 @ b2)) f,
          offset = off + of_nat (length (b1 @ b2))\<rparr>"
proof -
  from assms have o1: "unat off < 2 ^ 63" by simp
  from assms have "unat off + length b1 < 2 ^ 64" by simp
  then have u: "unat (off + of_nat (length b1)) = unat off + length b1"
    by (rule unat_add_of_nat)
  with assms have o2: "unat (off + of_nat (length b1)) < 2 ^ 63" by simp
  show ?thesis
    by (simp only: OffsetWriter_Write_def mem_WriteAt_nonneg [OF o1] mem_WriteAt_nonneg [OF o2]
          u prod.case fst_conv OffsetWriter.simps overwrite_twice [OF refl] of_int_of_nat_eq)
       (simp add: add.assoc)
qed

section \<open>The byte counter\<close>

lemma Download_Writes_size:
  "size_d (Download_Writes d bs) = size_d d + of_nat (sum_list (map length bs))"
  by (induction bs arbitrary: d) (simp_all add: Download_Write_def add.assoc)

lemma Download_Writes_append:
  "Download_Writes d (bs @ cs) = Download_Writes (Download_Writes d bs) cs"
  by (induction bs arbitrary: d) simp_all

text \<open>
  C9, as stated: the counter never goes down across any sequence of counting writes.
  The counter is a \<open>uint64\<close> and the addition wraps: after \<open>2 ^ 32\<close> writes of a
  buffer of \<open>2 ^ 32\<close> bytes, starting from the zero session, \<open>Size\<close> is back at 0,
  below the \<open>2 ^ 32\<close> it showed after the first of them.
\<close>

theorem Download_Write_wraps:
  "Download_Size (Download_Writes Download_zero [replicate (2 ^ 32) 0]) = 2 ^ 32 \<and>
   Download_Size (Download_Writes Download_zero (replicate (2 ^ 32) (replicate (2 ^ 32) 0))) = 0 \<and>
   \<not> Download_Size (Download_Writes Download_zero [replicate (2 ^ 32) 0]) \<le>
     Download_Size (Download_Writes Download_zero (replicate (2 ^ 32) (replicate (2 ^ 32) 0)))"
proof -
  have a: "Download_Size (Download_Writes Download_zero [replicate (2 ^ 32) 0]) = 2 ^ 32"
    by (simp add: Download_Size_def Download_Writes_size Download_zero_def del: Download_Writes.simps)
  have "sum_list (map length (replicate (2 ^ 32) (replicate (2 ^ 32) (0::byte)))) = (2 ^ 32 * 2 ^ 32 :: nat)"
    by (simp add: sum_list_replicate)
  then have b: "Download_Size (Download_Writes Download_zero (replicate (2 ^ 32) (replicate (2 ^ 32) 0))) = 0"
    by (simp add: Download_Size_def Download_Writes_size Download_zero_def del: Download_Writes.simps)
  have "\<not> (2 ^ 32 :: u64) \<le> 0" by simp
  with a b show ?thesis by simp
qed

text \<open>
  C9, amended. Across every sequence of counting writes whose lengths, added to the
  counter's start value, stay below \<open>2 ^ 64\<close>: after any prefix \<open>bs\<close> of the
  sequence \<open>Size\<close> is the start value plus the lengths of the buffers written, it is
  at most what it is after any longer prefix \<open>bs @ cs\<close>, and each \<open>Write b\<close> returns
  \<open>len(b)\<close> and no error.
\<close>

theorem Download_Write_monotone:
  assumes "unat (Download_Size d) + sum_list (map length (bs @ cs)) < 2 ^ 64"
  shows "unat (Download_Size (Download_Writes d bs)) =
           unat (Download_Size d) + sum_list (map length bs) \<and>
         Download_Size (Download_Writes d bs) \<le> Download_Size (Download_Writes d (bs @ cs)) \<and>
         snd (Download_Write d b) = (int (length b), None)"
proof -
  from assms have b1: "unat (size_d d) + sum_list (map length bs) < 2 ^ 64"
    and b2: "unat (size_d d) + sum_list (map length (bs @ cs)) < 2 ^ 64"
    by (simp_all add: Download_Size_def)
  have e1: "unat (size_d (Download_Writes d bs)) = unat (size_d d) + sum_list (map length bs)"
    using unat_add_of_nat [OF b1] by (simp add: Download_Writes_size)
  have e2: "unat (size_d (Download_Writes d (bs @ cs))) =
            unat (size_d d) + sum_list (map length (bs @ cs))"
    using unat_add_of_nat [OF b2] by (simp only: Download_Writes_size)
  from e1 e2 have "size_d (Download_Writes d bs) \<le> size_d (Download_Writes d (bs @ cs))"
    by (simp add: word_le_nat_alt)
  with e1 show ?thesis by (simp add: Download_Size_def Download_Write_def)
qed

theorem Download_Write_monotone_witness:
  "Download_Size (Download_Writes Download_zero [[1, 2, 3]]) = 3 \<and>
   Download_Size (Download_Writes Download_zero ([[1, 2, 3]] @ [[4, 5]])) = 5"
proof -
  have h: "unat (Download_Size Download_zero) + sum_list (map length ([[1, 2, 3 :: byte]] @ [[4, 5]])) < 2 ^ 64"
    by (simp add: Download_Size_def Download_zero_def)
  from Download_Write_monotone [OF h]
  show ?thesis by (simp add: Download_Size_def Download_zero_def Download_Write_def)
qed

section \<open>Copying\<close>

lemma LimitReader_concat:
  "concat (fst (LimitReader ps e n)) = take (nat n) (concat ps)"
proof (induction ps arbitrary: n)
  case Nil
  then show ?case by simp
next
  case (Cons p ps)
  show ?case
  proof (cases "n \<le> 0")
    case True
    then show ?thesis by simp
  next
    case False
    then have n: "0 < n" by simp
    have "nat (n - int (length (take (nat n) p))) = nat n - length p"
      using n by (cases "length p \<le> nat n") (simp_all add: min_def nat_diff_distrib)
    with Cons.IH [of "n - int (length (take (nat n) p))"] n
    show ?thesis by (simp add: split_beta)
  qed
qed

lemma io_Copy_bounds:
  "io_Copy W ps e d w n0 = (d', w', n', err) \<Longrightarrow>
   n0 \<le> n' \<and> n' \<le> n0 + int (length (concat ps))"
proof (induction ps arbitrary: d w n0)
  case Nil
  then show ?case by simp
next
  case (Cons p ps)
  show ?case
  proof (cases "p = []")
    case True
    with Cons show ?thesis by simp
  next
    case False
    obtain w1 nw ew where W: "W w p = (w1, nw, ew)" by (cases "W w p") auto
    show ?thesis
    proof (cases "nw < 0 \<or> int (length p) < nw \<or> ew \<noteq> None \<or> int (length p) \<noteq> nw")
      case True
      with Cons.prems False W show ?thesis by (auto split: if_splits)
    next
      case False
      with Cons.prems \<open>p \<noteq> []\<close> W
      have "io_Copy W ps e (fst (Download_Write d p)) w1 (n0 + nw) = (d', w', n', err)"
        and "nw = int (length p)" by auto
      with Cons.IH [of "fst (Download_Write d p)" w1 "n0 + nw"] show ?thesis by auto
    qed
  qed
qed

lemma io_Copy_full:
  "io_Copy W ps e d w n0 = (d', w', n', err) \<Longrightarrow> n' = n0 + int (length (concat ps)) \<Longrightarrow>
   d' = d\<lparr>size_d := size_d d + of_nat (length (concat ps))\<rparr>"
proof (induction ps arbitrary: d w n0)
  case Nil
  then show ?case by simp
next
  case (Cons p ps)
  show ?case
  proof (cases "p = []")
    case True
    with Cons show ?thesis by simp
  next
    case False
    obtain w1 nw ew where W: "W w p = (w1, nw, ew)" by (cases "W w p") auto
    show ?thesis
    proof (cases "nw < 0 \<or> int (length p) < nw \<or> ew \<noteq> None \<or> int (length p) \<noteq> nw")
      case True
      from \<open>p \<noteq> []\<close> have lp: "0 < int (length p)" by simp
      from True Cons.prems(1) \<open>p \<noteq> []\<close> W
      have r: "d' = fst (Download_Write d p)" "n' = n0 \<or> (n' = n0 + nw \<and> nw \<le> int (length p))"
        by (auto split: if_splits)
      define m where "m = length (concat ps)"
      from Cons.prems(2) have "n' = n0 + int (length p) + int m" by (simp add: m_def)
      with r(2) lp have "m = 0" by auto
      then have "length (concat (p # ps)) = length p" by (simp add: m_def)
      with r(1) show ?thesis by (simp only: Download_Write_def fst_conv)
    next
      case False
      with Cons.prems \<open>p \<noteq> []\<close> W
      have "io_Copy W ps e (fst (Download_Write d p)) w1 (n0 + nw) = (d', w', n', err)"
        and "nw = int (length p)" by auto
      with Cons.IH [of "fst (Download_Write d p)" w1 "n0 + nw"] Cons.prems(2)
      show ?thesis by (simp add: Download_Write_def add.assoc)
    qed
  qed
qed

lemma io_Copy_OffsetWriter_full:
  "io_Copy (OffsetWriter_Write WA) ps e d w n0 = (d', w', n', err) \<Longrightarrow>
   n' = n0 + int (length (concat ps)) \<Longrightarrow>
   offset w' = offset w + of_nat (length (concat ps))"
proof (induction ps arbitrary: d w n0)
  case Nil
  then show ?case by simp
next
  case (Cons p ps)
  show ?case
  proof (cases "p = []")
    case True
    with Cons show ?thesis by simp
  next
    case False
    obtain w1 nw ew where W: "OffsetWriter_Write WA w p = (w1, nw, ew)"
      by (cases "OffsetWriter_Write WA w p") auto
    then have off: "offset w1 = offset w + word_of_int nw"
      by (auto simp: OffsetWriter_Write_def split: prod.splits)
    show ?thesis
    proof (cases "nw < 0 \<or> int (length p) < nw \<or> ew \<noteq> None \<or> int (length p) \<noteq> nw")
      case True
      from \<open>p \<noteq> []\<close> have lp: "0 < int (length p)" by simp
      from True Cons.prems(1) \<open>p \<noteq> []\<close> W
      have r: "w' = w1" "n' = n0 \<or> (n' = n0 + nw \<and> nw \<le> int (length p))"
        by (auto split: if_splits)
      define m where "m = length (concat ps)"
      from Cons.prems(2) have "n' = n0 + int (length p) + int m" by (simp add: m_def)
      with r(2) lp have "m = 0" "nw = int (length p)" by auto
      then have "length (concat (p # ps)) = length p" "word_of_int nw = (of_nat (length p) :: u64)"
        by (simp_all add: m_def)
      with r(1) off show ?thesis by (simp only:)
    next
      case False
      with Cons.prems \<open>p \<noteq> []\<close> W
      have "io_Copy (OffsetWriter_Write WA) ps e (fst (Download_Write d p)) w1 (n0 + nw) =
              (d', w', n', err)"
        and "nw = int (length p)" by auto
      with Cons.IH [of "fst (Download_Write d p)" w1 "n0 + nw"] Cons.prems(2) off
      show ?thesis by (simp add: add.assoc)
    qed
  qed
qed

lemma WriteAt_all_empty: "concat qs = [] \<Longrightarrow> WriteAt_all WA w off qs = w"
  by (induction qs) auto

lemma io_Copy_OffsetWriter_sink:
  "io_Copy (OffsetWriter_Write WA) ps e d w n0 = (d', w', n', err) \<Longrightarrow>
   n' = n0 + int (length (concat ps)) \<Longrightarrow>
   sink w' = WriteAt_all WA (sink w) (offset w) ps"
proof (induction ps arbitrary: d w n0)
  case Nil
  then show ?case by simp
next
  case (Cons p ps)
  show ?case
  proof (cases "p = []")
    case True
    with Cons show ?thesis by simp
  next
    case False
    obtain w1 nw ew where W: "OffsetWriter_Write WA w p = (w1, nw, ew)"
      by (cases "OffsetWriter_Write WA w p") auto
    then have w1: "sink w1 = fst (WA (sink w) p (offset w))"
      "offset w1 = offset w + word_of_int nw"
      by (auto simp: OffsetWriter_Write_def split: prod.splits)
    show ?thesis
    proof (cases "nw < 0 \<or> int (length p) < nw \<or> ew \<noteq> None \<or> int (length p) \<noteq> nw")
      case True
      from \<open>p \<noteq> []\<close> have lp: "0 < int (length p)" by simp
      from True Cons.prems(1) \<open>p \<noteq> []\<close> W
      have r: "w' = w1" "n' = n0 \<or> (n' = n0 + nw \<and> nw \<le> int (length p))"
        by (auto split: if_splits)
      define m where "m = length (concat ps)"
      from Cons.prems(2) have "n' = n0 + int (length p) + int m" by (simp add: m_def)
      with r(2) lp have "m = 0" by auto
      then have "concat ps = []" by (simp add: m_def)
      then have "WriteAt_all WA (sink w1) (offset w + of_nat (length p)) ps = sink w1"
        by (rule WriteAt_all_empty)
      with r(1) w1(1) \<open>p \<noteq> []\<close> show ?thesis by simp
    next
      case False
      with Cons.prems \<open>p \<noteq> []\<close> W
      have "io_Copy (OffsetWriter_Write WA) ps e (fst (Download_Write d p)) w1 (n0 + nw) =
              (d', w', n', err)"
        and nw: "nw = int (length p)" by auto
      with Cons.IH [of "fst (Download_Write d p)" w1 "n0 + nw"] Cons.prems(2)
      have "sink w' = WriteAt_all WA (sink w1) (offset w1) ps" by (simp add: add.assoc)
      with w1 nw \<open>p \<noteq> []\<close> show ?thesis by simp
    qed
  qed
qed

lemma io_CopyN_success:
  assumes "io_CopyN W src n d w = (d', w', written, None)" and "0 \<le> n"
  shows "written = n \<and> d' = d\<lparr>size_d := size_d d + of_nat (nat n)\<rparr> \<and>
         nat n \<le> length (concat (reads src))"
proof -
  obtain qs e where L: "LimitReader (reads src) (fin src) n = (qs, e)"
    by (cases "LimitReader (reads src) (fin src) n") auto
  obtain d1 w1 wr err where C: "io_Copy W qs e d w 0 = (d1, w1, wr, err)"
    by (cases "io_Copy W qs e d w 0") auto
  from L have cq: "concat qs = take (nat n) (concat (reads src))"
    using LimitReader_concat [of "reads src" "fin src" n] by simp
  then have len: "int (length (concat qs)) \<le> n" using assms(2) by simp
  from io_Copy_bounds [OF C] have wr: "wr \<le> int (length (concat qs))" by simp
  from assms(1) L C len wr have eq: "wr = n" "d' = d1" "written = n"
    by (auto simp: io_CopyN_def split: if_splits)
  with wr len have full: "wr = 0 + int (length (concat qs))" by simp
  from io_Copy_full [OF C full] have "d1 = d\<lparr>size_d := size_d d + of_nat (length (concat qs))\<rparr>" .
  moreover from full eq have lq: "length (concat qs) = nat n" by simp
  moreover from lq cq have "nat n \<le> length (concat (reads src))" by (metis length_take min.cobounded1)
  ultimately show ?thesis using eq by simp
qed

lemma io_CopyN_OffsetWriter_success:
  assumes "io_CopyN (OffsetWriter_Write WA) src n d w = (d', w', written, None)" and "0 \<le> n"
  shows "offset w' = offset w + of_nat (nat n) \<and>
         sink w' = WriteAt_all WA (sink w) (offset w) (fst (LimitReader (reads src) (fin src) n))"
proof -
  obtain qs e where L: "LimitReader (reads src) (fin src) n = (qs, e)"
    by (cases "LimitReader (reads src) (fin src) n") auto
  obtain d1 w1 wr err where C: "io_Copy (OffsetWriter_Write WA) qs e d w 0 = (d1, w1, wr, err)"
    by (cases "io_Copy (OffsetWriter_Write WA) qs e d w 0") auto
  from L have cq: "concat qs = take (nat n) (concat (reads src))"
    using LimitReader_concat [of "reads src" "fin src" n] by simp
  then have len: "int (length (concat qs)) \<le> n" using assms(2) by simp
  from io_Copy_bounds [OF C] have wr: "wr \<le> int (length (concat qs))" by simp
  from assms(1) L C len wr have eq: "wr = n" "w' = w1"
    by (auto simp: io_CopyN_def split: if_splits)
  with wr len have full: "wr = 0 + int (length (concat qs))" by simp
  from io_Copy_OffsetWriter_full [OF C full]
  have "offset w1 = offset w + of_nat (length (concat qs))" .
  moreover from full eq have "length (concat qs) = nat n" by simp
  moreover from io_Copy_OffsetWriter_sink [OF C full]
  have "sink w1 = WriteAt_all WA (sink w) (offset w) qs" .
  ultimately show ?thesis using eq L by simp
qed


section \<open>The probe\<close>

lemma Split_no_sep: "sep \<notin> set s \<Longrightarrow> Split s sep = [s]"
  by (induction s) auto

lemma Split_at_first: "sep \<notin> set p \<Longrightarrow> Split (p @ sep # t) sep = p # Split t sep"
  by (induction p) auto

lemma Split_not_Nil: "Split s sep \<noteq> []"
  by (induction s) (auto split: list.splits)

lemma length_Split: "length (Split s sep) = Suc (length (filter (\<lambda>c. c = sep) s))"
  by (induction s) (auto split: list.splits simp: Split_not_Nil)

lemma Split_two_iff:
  "length (Split s sep) = 2 \<longleftrightarrow> (\<exists>p t. s = p @ sep # t \<and> sep \<notin> set p \<and> sep \<notin> set t)"
proof
  assume "length (Split s sep) = 2"
  then have one: "length (filter (\<lambda>c. c = sep) s) = 1" by (simp add: length_Split)
  then have "sep \<in> set s"
    by (metis (mono_tags, lifting) filter_False length_0_conv zero_neq_one)
  then obtain p t where s: "s = p @ sep # t" and p: "sep \<notin> set p"
    by (meson split_list_first)
  from p have "filter (\<lambda>c. c = sep) p = []" by (auto simp: filter_empty_conv)
  with one s have "filter (\<lambda>c. c = sep) t = []" by simp
  then have "sep \<notin> set t" by (auto simp: filter_empty_conv)
  with s p show "\<exists>p t. s = p @ sep # t \<and> sep \<notin> set p \<and> sep \<notin> set t" by blast
next
  assume "\<exists>p t. s = p @ sep # t \<and> sep \<notin> set p \<and> sep \<notin> set t"
  then show "length (Split s sep) = 2" by (auto simp: Split_at_first Split_no_sep)
qed

lemma Split_two_parts:
  "sep \<notin> set p \<Longrightarrow> sep \<notin> set t \<Longrightarrow> Split (p @ sep # t) sep = [p, t]"
  by (simp add: Split_at_first Split_no_sep)


lemma digit_value_char_of: "k < 10 \<Longrightarrow> digit_value (char_of (48 + k)) = Some (int k)"
proof -
  assume k: "k < 10"
  then have "(of_char (char_of (48 + k) :: char) :: nat) = 48 + k" by simp
  then have "(of_char (char_of (48 + k) :: char) :: int) = 48 + int k"
    by (metis of_nat_add of_nat_numeral of_nat_of_char)
  with k show ?thesis by (simp add: digit_value_def)
qed

lemma parse_digits_append:
  "parse_digits acc (xs @ ys) =
     (case parse_digits acc xs of None \<Rightarrow> None | Some v \<Rightarrow> parse_digits v ys)"
  by (induction xs arbitrary: acc) (auto split: option.splits)

lemma parse_digits_FormatUint: "parse_digits 0 (FormatUint n) = Some (int n)"
proof (induction n rule: FormatUint.induct)
  case (1 n)
  show ?case
  proof (cases "n < 10")
    case True
    then show ?thesis by (subst FormatUint.simps) (simp add: digit_value_char_of)
  next
    case False
    have m: "n mod 10 < 10" by simp
    have "int (n div 10) * 10 + int (n mod 10) = int n"
      by (metis of_nat_add of_nat_mult of_nat_numeral div_mult_mod_eq)
    with False "1.IH" show ?thesis
      by (subst FormatUint.simps) (simp add: parse_digits_append digit_value_char_of [OF m])
  qed
qed

lemma FormatUint_not_Nil: "FormatUint n \<noteq> []"
  by (subst FormatUint.simps) simp

lemma ParseUint_FormatUint:
  assumes "n < 2 ^ 64"
  shows "ParseUint (FormatUint n) = Some (of_nat n)"
proof -
  from assms have "int n < 2 ^ 64" by (metis of_nat_less_numeral_power_cancel_iff)
  then show ?thesis
    by (simp add: ParseUint_def FormatUint_not_Nil parse_digits_FormatUint)
qed

lemma slash_not_digit: "CHR ''/'' \<notin> set (FormatUint n)"
proof (induction n rule: FormatUint.induct)
  case (1 n)
  have d: "k < 10 \<Longrightarrow> CHR ''/'' \<noteq> char_of (48 + k)" for k :: nat
  proof
    assume "k < 10" "CHR ''/'' = char_of (48 + k)"
    then have "(of_char CHR ''/'' :: nat) = of_char (char_of (48 + k) :: char)" by simp
    with \<open>k < 10\<close> show False by simp
  qed
  show ?case
  proof (cases "n < 10")
    case True
    then show ?thesis using d [of n] by (subst FormatUint.simps) simp
  next
    case False
    with "1.IH" show ?thesis using d [of "n mod 10"] by (subst FormatUint.simps) simp
  qed
qed

lemma GetInfoOrDownload_after_copy:
  assumes req: "NewRequest_err env = None"
    and res: "Client_Do env None = Inr res"
    and status: "StatusCode res < 300"
    and create: "os_Create os f = Inr dest"
    and copy: "io_Copy (File_Write os) (reads (Body res)) (fin (Body res))
                 (d\<lparr>unsafeName := content_disposition res\<rparr>) dest 0 = (d1, dest1, written, None)"
  shows "GetInfoOrDownload os env d f =
     (if content_range res \<noteq> [] \<and> ContentLength res = 1 then
       (if length (Split (content_range res) CHR ''/'') = 2 then
          (case ParseUint (Split (content_range res) CHR ''/'' ! 1) of
             Some n \<Rightarrow> (Inr \<lparr>Size = n, Rangeable = True\<rparr>, d1, dest1)
           | None \<Rightarrow> (Inl (InvalidContentRange (content_range res)), d1, dest1))
        else (Inl (InvalidContentRange (content_range res)), d1, dest1))
     else (Inr \<lparr>Size = 0, Rangeable = False\<rparr>, d1, dest1))"
  using req res status create copy by (simp add: GetInfoOrDownload_def)

lemma GetInfoOrDownload_bytes_total:
  assumes req: "NewRequest_err env = None"
    and res: "Client_Do env None = Inr res"
    and status: "StatusCode res < 300"
    and create: "os_Create os f = Inr dest"
    and copy: "io_Copy (File_Write os) (reads (Body res)) (fin (Body res))
                 (d\<lparr>unsafeName := content_disposition res\<rparr>) dest 0 = (d1, dest1, written, None)"
    and one: "ContentLength res = 1"
    and header: "content_range res =
                   ''bytes '' @ FormatUint x @ ''-'' @ FormatUint y @ ''/'' @ FormatUint tot"
    and bound: "tot < 2 ^ 64"
  shows "GetInfoOrDownload os env d f =
           (Inr \<lparr>Size = of_nat tot, Rangeable = True\<rparr>, d1, dest1)"
proof -
  let ?p = "''bytes '' @ FormatUint x @ ''-'' @ FormatUint y"
  have p: "CHR ''/'' \<notin> set ?p" by (simp add: slash_not_digit)
  have t: "CHR ''/'' \<notin> set (FormatUint tot)" by (rule slash_not_digit)
  from header have h: "content_range res = ?p @ CHR ''/'' # FormatUint tot" by simp
  then have ne: "content_range res \<noteq> []" by simp
  from p t have sp: "Split (?p @ CHR ''/'' # FormatUint tot) CHR ''/'' = [?p, FormatUint tot]"
    by (rule Split_two_parts)
  show ?thesis
    unfolding GetInfoOrDownload_after_copy [OF req res status create copy]
    using ne one ParseUint_FormatUint [OF bound] by (simp only: h sp) simp
qed

text \<open>
  C3, as stated: a malformed \<open>content-range\<close> header fails with the
  invalid-range-header error, and a response with such a header and a body of exactly
  one byte is rangeable. The code splits the header at \<open>/\<close> and reads what follows;
  it does not look at what precedes the slash, so \<open>garbage/7\<close> is accepted with a
  total of 7. And it compares the declared \<open>ContentLength\<close>, not the length of the
  body: a one-byte body sent without a declared length (\<open>ContentLength = -1\<close>) with
  the header \<open>bytes 0-0/10\<close> is taken as not rangeable.
\<close>

theorem GetInfoOrDownload_misclassifies:
  "GetInfoOrDownload mem_OS garbage_env Download_zero [] =
     (Inr \<lparr>Size = 7, Rangeable = True\<rparr>, Download_zero\<lparr>size_d := 1\<rparr>, [1]) \<and>
   Client_Do undeclared_env None =
     Inr \<lparr>StatusCode = 206, content_disposition = [], content_range = ''bytes 0-0/10'',
          ContentLength = - 1, Body = \<lparr>reads = [[1]], fin = None\<rparr>\<rparr> \<and>
   GetInfoOrDownload mem_OS undeclared_env Download_zero [] =
     (Inr \<lparr>Size = 0, Rangeable = False\<rparr>, Download_zero\<lparr>size_d := 1\<rparr>, [1])"
  by code_simp

text \<open>
  C3, amended. Once the probe has its response (the request went through, the status
  is below 300, the destination file was created and the body was copied), the outcome
  is decided by the \<open>content-range\<close> header and the content length the response
  declares. With a non-empty header and a declared length of exactly 1: if the header
  is \<open>p/t\<close> with a single slash and \<open>t\<close> a decimal \<open>uint64\<close>, whatever \<open>p\<close> is,
  the result is that total with \<open>Rangeable = True\<close>, so a header
  \<open>bytes X-Y/TOTAL\<close> gives \<open>TOTAL\<close>; if the header has no such form, the call
  fails with the invalid-content-range error. With no header or another declared
  length the result is size 0 and \<open>Rangeable = False\<close>.
\<close>

theorem GetInfoOrDownload_classifies:
  assumes req: "NewRequest_err env = None"
    and res: "Client_Do env None = Inr res"
    and status: "StatusCode res < 300"
    and create: "os_Create os f = Inr dest"
    and copy: "io_Copy (File_Write os) (reads (Body res)) (fin (Body res))
                 (d\<lparr>unsafeName := content_disposition res\<rparr>) dest 0 = (d1, dest1, written, None)"
  shows "(content_range res \<noteq> [] \<and> ContentLength res = 1 \<longrightarrow>
            (\<forall>p t n. content_range res = p @ CHR ''/'' # t \<and> CHR ''/'' \<notin> set p \<and>
                     CHR ''/'' \<notin> set t \<and> ParseUint t = Some n \<longrightarrow>
               GetInfoOrDownload os env d f = (Inr \<lparr>Size = n, Rangeable = True\<rparr>, d1, dest1)) \<and>
            ((\<nexists>p t n. content_range res = p @ CHR ''/'' # t \<and> CHR ''/'' \<notin> set p \<and>
                     CHR ''/'' \<notin> set t \<and> ParseUint t = Some n) \<longrightarrow>
               GetInfoOrDownload os env d f =
                 (Inl (InvalidContentRange (content_range res)), d1, dest1))) \<and>
         (content_range res = [] \<or> ContentLength res \<noteq> 1 \<longrightarrow>
            GetInfoOrDownload os env d f = (Inr \<lparr>Size = 0, Rangeable = False\<rparr>, d1, dest1)) \<and>
         (\<forall>x y tot. ContentLength res = 1 \<and> tot < 2 ^ 64 \<and>
              content_range res =
                ''bytes '' @ FormatUint x @ ''-'' @ FormatUint y @ ''/'' @ FormatUint tot \<longrightarrow>
            GetInfoOrDownload os env d f =
              (Inr \<lparr>Size = of_nat tot, Rangeable = True\<rparr>, d1, dest1))"
proof -
  let ?cr = "content_range res"
  note base = GetInfoOrDownload_after_copy [OF req res status create copy]
  have ok: "GetInfoOrDownload os env d f = (Inr \<lparr>Size = n, Rangeable = True\<rparr>, d1, dest1)"
    if "?cr \<noteq> []" "ContentLength res = 1" "?cr = p @ CHR ''/'' # t" "CHR ''/'' \<notin> set p"
       "CHR ''/'' \<notin> set t" "ParseUint t = Some n" for p t n
    using that by (simp add: base Split_two_parts)
  have bad: "GetInfoOrDownload os env d f = (Inl (InvalidContentRange ?cr), d1, dest1)"
    if "?cr \<noteq> []" "ContentLength res = 1"
       "\<nexists>p t n. ?cr = p @ CHR ''/'' # t \<and> CHR ''/'' \<notin> set p \<and>
                     CHR ''/'' \<notin> set t \<and> ParseUint t = Some n"
  proof (cases "length (Split ?cr CHR ''/'') = 2")
    case False
    with that show ?thesis by (simp add: base)
  next
    case True
    then obtain p t where pt: "?cr = p @ CHR ''/'' # t" "CHR ''/'' \<notin> set p" "CHR ''/'' \<notin> set t"
      by (auto simp: Split_two_iff)
    with that(3) have "ParseUint t = None" by (cases "ParseUint t") blast+
    moreover from pt have "Split ?cr CHR ''/'' = [p, t]" by (simp add: Split_two_parts)
    ultimately show ?thesis using that(1,2) by (simp add: base)
  qed
  have non: "GetInfoOrDownload os env d f = (Inr \<lparr>Size = 0, Rangeable = False\<rparr>, d1, dest1)"
    if "?cr = [] \<or> ContentLength res \<noteq> 1"
    using that by (auto simp: base)
  have fmt: "GetInfoOrDownload os env d f =
              (Inr \<lparr>Size = of_nat tot, Rangeable = True\<rparr>, d1, dest1)"
    if "ContentLength res = 1" "tot < 2 ^ 64"
       "?cr = ''bytes '' @ FormatUint x @ ''-'' @ FormatUint y @ ''/'' @ FormatUint tot"
    for x y tot
    using GetInfoOrDownload_bytes_total [OF req res status create copy that(1,3,2)] .
  from ok bad non fmt show ?thesis by blast
qed

theorem GetInfoOrDownload_classifies_witness:
  "GetInfoOrDownload mem_OS sample_env Download_zero [] =
     (Inr \<lparr>Size = 10, Rangeable = True\<rparr>, Download_zero\<lparr>size_d := 1\<rparr>, [1])"
proof -
  let ?res = "\<lparr>StatusCode = 206, content_disposition = [], content_range = ''bytes 0-0/10'',
               ContentLength = 1, Body = \<lparr>reads = [[1 :: byte]], fin = None\<rparr>\<rparr>"
  have h1: "NewRequest_err sample_env = None" by (simp add: sample_env_def)
  have h2: "Client_Do sample_env None = Inr ?res" by code_simp
  have h3: "StatusCode ?res < 300" by simp
  have h4: "os_Create mem_OS ([] :: byte list) = Inr []" by (simp add: mem_OS_def)
  have h5: "io_Copy (File_Write mem_OS) (reads (Body ?res)) (fin (Body ?res))
                 (Download_zero\<lparr>unsafeName := content_disposition ?res\<rparr>) [] 0 =
              (Download_zero\<lparr>size_d := 1\<rparr>, [1], 1, None)" by code_simp
  have p: "content_range ?res = ''bytes 0-0'' @ CHR ''/'' # ''10'' \<and> CHR ''/'' \<notin> set ''bytes 0-0'' \<and>
           CHR ''/'' \<notin> set ''10'' \<and> ParseUint ''10'' = Some 10" by code_simp
  have q: "content_range ?res \<noteq> [] \<and> ContentLength ?res = 1" by simp
  from GetInfoOrDownload_classifies [OF h1 h2 h3 h4 h5] p q
  show ?thesis by blast
qed

section \<open>The fetch worker\<close>

text \<open>
  C4, as stated: for every chunk a response whose content length differs from
  \<open>end - start + 1\<close> is rejected. The comparison is made after the conversion to
  \<open>int64\<close>: for the chunk \<open>{0, 2 ^ 64 - 2}\<close>, of \<open>2 ^ 64 - 1\<close> bytes, the expected
  length reads as \<open>-1\<close>, which is the length Go reports for a body of unknown
  length. The worker accepts that response, copies nothing and returns no error.
\<close>

theorem DownloadChunk_accepts_unknown_length:
  "DownloadChunk (OffsetWriter_Write mem_WriteAt) chunked_env Download_zero
     \<lparr>Start = 0, End = 0xFFFFFFFFFFFFFFFE\<rparr> \<lparr>sink = [], offset = 0\<rparr> =
   (None, Download_zero, \<lparr>sink = [], offset = 0\<rparr>) \<and>
   Client_Do chunked_env (Some \<lparr>Start = 0, End = 0xFFFFFFFFFFFFFFFE\<rparr>) =
     Inr \<lparr>StatusCode = 200, content_disposition = [], content_range = [],
          ContentLength = - 1, Body = \<lparr>reads = [[1, 2, 3]], fin = None\<rparr>\<rparr> \<and>
   (- 1 :: int) \<noteq> int (unat (0xFFFFFFFFFFFFFFFE :: u64)) - int (unat (0 :: u64)) + 1"
proof (intro conjI)
  show "DownloadChunk (OffsetWriter_Write mem_WriteAt) chunked_env Download_zero
     \<lparr>Start = 0, End = 0xFFFFFFFFFFFFFFFE\<rparr> \<lparr>sink = [], offset = 0\<rparr> =
   (None, Download_zero, \<lparr>sink = [], offset = 0\<rparr>)" by code_simp
  show "Client_Do chunked_env (Some \<lparr>Start = 0, End = 0xFFFFFFFFFFFFFFFE\<rparr>) =
     Inr \<lparr>StatusCode = 200, content_disposition = [], content_range = [],
          ContentLength = - 1, Body = \<lparr>reads = [[1, 2, 3]], fin = None\<rparr>\<rparr>"
    by (simp add: chunked_env_def)
  show "(- 1 :: int) \<noteq> int (unat (0xFFFFFFFFFFFFFFFE :: u64)) - int (unat (0 :: u64)) + 1"
    by simp
qed

text \<open>
  C4, amended. For every chunk with \<open>start \<le> end\<close> and \<open>end - start + 1\<close> below
  \<open>2 ^ 63\<close>, once the request is answered: a response whose content length differs
  from \<open>end - start + 1\<close> fails with the content-length error and nothing is copied;
  when it matches, the worker's result is that of copying that many bytes from the
  body into the Offset Writer, any error of the copy being the worker's error, and
  when there is no error exactly that many bytes were written, the body held at
  least that many, the session's counter and the writer's offset have both advanced
  by that number, and the sink is what positional writes of the first that many bytes
  of the body, one behind the other from the writer's offset, leave.
\<close>

theorem DownloadChunk_validates_and_copies:
  assumes req: "NewRequest_err env = None"
    and res: "Client_Do env (Some c) = Inr res"
    and le: "Start c \<le> End c"
    and span: "unat (End c) - unat (Start c) + 1 < 2 ^ 63"
  shows "(ContentLength res \<noteq> int (unat (End c) - unat (Start c) + 1) \<longrightarrow>
            DownloadChunk (OffsetWriter_Write WriteAt) env d c dest =
              (Some (InvalidContentLength (ContentLength res) (Start c) (End c)), d, dest)) \<and>
         (ContentLength res = int (unat (End c) - unat (Start c) + 1) \<longrightarrow>
            (case io_CopyN (OffsetWriter_Write WriteAt) (Body res) (ContentLength res) d dest of
               (d1, dest1, written, err) \<Rightarrow>
                 DownloadChunk (OffsetWriter_Write WriteAt) env d c dest = (err, d1, dest1) \<and>
                 (err = None \<longrightarrow>
                    written = ContentLength res \<and>
                    nat (ContentLength res) \<le> length (concat (reads (Body res))) \<and>
                    Download_Size d1 = Download_Size d + of_nat (nat (ContentLength res)) \<and>
                    offset dest1 = offset dest + of_nat (nat (ContentLength res)) \<and>
                    sink dest1 =
                      WriteAt_all WriteAt (sink dest) (offset dest)
                        (fst (LimitReader (reads (Body res)) (fin (Body res))
                               (ContentLength res))) \<and>
                    concat (fst (LimitReader (reads (Body res)) (fin (Body res))
                                  (ContentLength res))) =
                      take (nat (ContentLength res)) (concat (reads (Body res))))))"
proof (intro conjI impI)
  assume "ContentLength res \<noteq> int (unat (End c) - unat (Start c) + 1)"
  then show "DownloadChunk (OffsetWriter_Write WriteAt) env d c dest =
              (Some (InvalidContentLength (ContentLength res) (Start c) (End c)), d, dest)"
    using req res chunk_span [OF le span] by (simp add: DownloadChunk_def)
next
  assume eq: "ContentLength res = int (unat (End c) - unat (Start c) + 1)"
  then have nonneg: "0 \<le> ContentLength res" by simp
  obtain d1 dest1 written err where
    C: "io_CopyN (OffsetWriter_Write WriteAt) (Body res) (ContentLength res) d dest =
          (d1, dest1, written, err)"
    by (cases "io_CopyN (OffsetWriter_Write WriteAt) (Body res) (ContentLength res) d dest") auto
  have run: "DownloadChunk (OffsetWriter_Write WriteAt) env d c dest = (err, d1, dest1)"
    using req res eq chunk_span [OF le span] C by (simp add: DownloadChunk_def)
  have ok: "written = ContentLength res \<and>
            nat (ContentLength res) \<le> length (concat (reads (Body res))) \<and>
            Download_Size d1 = Download_Size d + of_nat (nat (ContentLength res)) \<and>
            offset dest1 = offset dest + of_nat (nat (ContentLength res)) \<and>
            sink dest1 =
              WriteAt_all WriteAt (sink dest) (offset dest)
                (fst (LimitReader (reads (Body res)) (fin (Body res)) (ContentLength res))) \<and>
            concat (fst (LimitReader (reads (Body res)) (fin (Body res)) (ContentLength res))) =
              take (nat (ContentLength res)) (concat (reads (Body res)))" if "err = None"
  proof -
    from C that have C': "io_CopyN (OffsetWriter_Write WriteAt) (Body res) (ContentLength res) d dest =
          (d1, dest1, written, None)" by simp
    from io_CopyN_success [OF C' nonneg] io_CopyN_OffsetWriter_success [OF C' nonneg]
      LimitReader_concat [of "reads (Body res)" "fin (Body res)" "ContentLength res"]
    show ?thesis by (simp add: Download_Size_def)
  qed
  from run ok C
  show "case io_CopyN (OffsetWriter_Write WriteAt) (Body res) (ContentLength res) d dest of
               (d1, dest1, written, err) \<Rightarrow>
                 DownloadChunk (OffsetWriter_Write WriteAt) env d c dest = (err, d1, dest1) \<and>
                 (err = None \<longrightarrow>
                    written = ContentLength res \<and>
                    nat (ContentLength res) \<le> length (concat (reads (Body res))) \<and>
                    Download_Size d1 = Download_Size d + of_nat (nat (ContentLength res)) \<and>
                    offset dest1 = offset dest + of_nat (nat (ContentLength res)) \<and>
                    sink dest1 =
                      WriteAt_all WriteAt (sink dest) (offset dest)
                        (fst (LimitReader (reads (Body res)) (fin (Body res))
                               (ContentLength res))) \<and>
                    concat (fst (LimitReader (reads (Body res)) (fin (Body res))
                                  (ContentLength res))) =
                      take (nat (ContentLength res)) (concat (reads (Body res))))"
    by simp
qed

theorem DownloadChunk_validates_and_copies_witness:
  "DownloadChunk (OffsetWriter_Write mem_WriteAt) sample_env Download_zero
     \<lparr>Start = 3, End = 6\<rparr> \<lparr>sink = replicate 10 0, offset = 3\<rparr> =
   (None, Download_zero\<lparr>size_d := 4\<rparr>,
    \<lparr>sink = [0, 0, 0, 4, 5, 6, 7, 0, 0, 0], offset = 7\<rparr>)"
proof -
  let ?c = "\<lparr>Start = 3, End = 6 :: u64\<rparr>"
  let ?res = "\<lparr>StatusCode = 206, content_disposition = [], content_range = [],
               ContentLength = 4, Body = \<lparr>reads = [[4, 5, 6, 7 :: byte]], fin = None\<rparr>\<rparr>"
  let ?w = "\<lparr>sink = replicate 10 (0 :: byte), offset = 3 :: u64\<rparr>"
  have h1: "NewRequest_err sample_env = None" by (simp add: sample_env_def)
  have h2: "Client_Do sample_env (Some ?c) = Inr ?res" by code_simp
  have h3: "Start ?c \<le> End ?c" by code_simp
  have h4: "unat (End ?c) - unat (Start ?c) + 1 < 2 ^ 63" by simp
  have m: "ContentLength ?res = int (unat (End ?c) - unat (Start ?c) + 1)" by simp
  have c: "io_CopyN (OffsetWriter_Write mem_WriteAt) (Body ?res) (ContentLength ?res)
             Download_zero ?w =
           (Download_zero\<lparr>size_d := 4\<rparr>,
            \<lparr>sink = [0, 0, 0, 4, 5, 6, 7, 0, 0, 0], offset = 7\<rparr>, 4, None)"
    by code_simp
  from DownloadChunk_validates_and_copies
         [OF h1 h2 h3 h4, of mem_WriteAt Download_zero ?w, THEN conjunct2, THEN mp, OF m]
  show ?thesis unfolding c by (simp only: prod.case)
qed

section \<open>Init and Start with an oversized chunk size\<close>





end
